theory Spec2Isabelle
  imports Main "HOL-Library.Word" "HOL-Library.AList"
begin

section \<open>Data model\<close>

text \<open>
  \<^verbatim>\<open>Preferences.cpp\<close> holds one member, \<^verbatim>\<open>layers_\<close>, a vector of layers; index 0
  is the base layer. The layer class itself (\<^verbatim>\<open>PrefLayer\<close>), the JSON library and
  \<^verbatim>\<open>core::Error\<close> are declared elsewhere. A JSON value is therefore any type \<open>'v\<close>
  whose HOL equality stands for the \<^verbatim>\<open>==\<close> of the JSON library, a layer's state is any
  type \<open>'l\<close>, and the five methods the file calls on a layer are the fields of
  \<open>layer_ops\<close>. The vector is a list of layer states: the shared pointers of the source
  are taken to point to pairwise different layers.
\<close>

type_synonym size_t = "64 word"

text \<open>
  A \<^verbatim>\<open>json::Object\<close>: its members in iteration order. \<^verbatim>\<open>unique[name] = value\<close> replaces
  the member of that name or appends a new one (\<open>AList.update\<close>).
\<close>

type_synonym 'v object = "(string \<times> 'v) list"

text \<open>
  Modelled from the spec: \<^verbatim>\<open>core::Error\<close> is not defined in the source file. The spec's
  error taxonomy has three kinds; \<^verbatim>\<open>Success()\<close> is \<open>None\<close> of \<open>error option\<close>, and
  \<^verbatim>\<open>if (error)\<close> tests for \<open>Some\<close>.
\<close>

datatype error = InvalidArgument | IoOrStorageError | ValidationError

text \<open>
  The interface of a layer, as the source calls it. \<open>readPrefs\<close> and \<open>writePrefs\<close>
  return an error and change the layer; \<open>validatePrefs\<close>, \<open>readValue\<close> and \<open>allPrefs\<close>
  only read it (the spec's contract of the layer).
\<close>

record ('l, 'v, 'd) layer_ops =
  readPrefs :: "'l \<Rightarrow> error option \<times> 'l"
  writePrefs :: "'v object \<Rightarrow> 'l \<Rightarrow> error option \<times> 'l"
  validatePrefs :: "'l \<Rightarrow> error option"
  readValue :: "'l \<Rightarrow> string \<Rightarrow> 'v option"
  allPrefs :: "'l \<Rightarrow> 'd"

text \<open>
  What a call of a method of \<^verbatim>\<open>Preferences\<close> did, besides returning: the calls it made
  on layers (in order, with the layer's index), the errors it passed to \<^verbatim>\<open>LOG_ERROR\<close>
  and the layers it left. Reading \<^verbatim>\<open>layers_[i]\<close> with \<open>i\<close> not below \<^verbatim>\<open>layers_.size()\<close> has
  no defined behaviour in C++: the model stops there with the fault \<open>OutOfRange i\<close>
  as outcome instead of a returned \<^verbatim>\<open>Error\<close>.
\<close>

datatype 'v call =
    ReadPrefs nat
  | ValidatePrefs nat
  | ReadValue size_t string
  | WritePrefs size_t "'v object"

datatype fault = OutOfRange size_t

record ('l, 'v) run =
  outcome :: "fault + error option"
  layers_after :: "'l list"
  logged :: "error list"
  calls :: "'v call list"

text \<open>\<^verbatim>\<open>layers_.size()\<close>, a \<^verbatim>\<open>size_t\<close>.\<close>

definition vsize :: "'a list \<Rightarrow> size_t" where
  "vsize xs = of_nat (length xs)"

section \<open>allLayers, readLayers, initialize\<close>

text \<open>The loop of \<^verbatim>\<open>allLayers\<close> pushes each layer's \<^verbatim>\<open>allPrefs()\<close> to the back of the array.\<close>

definition allLayers :: "('l, 'v, 'd) layer_ops \<Rightarrow> 'l list \<Rightarrow> 'd list" where
  "allLayers ops layers = foldl (\<lambda>array layer. array @ [allPrefs ops layer]) [] layers"

text \<open>\<^verbatim>\<open>if (error) LOG_ERROR(error);\<close>\<close>

fun log_error :: "error option \<Rightarrow> error list" where
  "log_error None = []"
| "log_error (Some e) = [e]"

text \<open>
  The loop of \<^verbatim>\<open>readLayers\<close>, from the layer at position \<open>k\<close> on: the layers as
  \<^verbatim>\<open>readPrefs\<close> leaves them, the errors logged and the calls made.
\<close>

fun readLayers_loop ::
  "('l, 'v, 'd) layer_ops \<Rightarrow> nat \<Rightarrow> 'l list \<Rightarrow> 'l list \<times> error list \<times> 'v call list" where
  "readLayers_loop ops k [] = ([], [], [])"
| "readLayers_loop ops k (layer # rest) =
     (case readPrefs ops layer of
        (error, layer') \<Rightarrow>
          (case readLayers_loop ops (Suc k) rest of
             (rest', errors, cs) \<Rightarrow>
               (layer' # rest', log_error error @ errors, ReadPrefs k # cs)))"

definition readLayers :: "('l, 'v, 'd) layer_ops \<Rightarrow> 'l list \<Rightarrow> ('l, 'v) run" where
  "readLayers ops layers =
     (case readLayers_loop ops 0 layers of
        (layers', errors, cs) \<Rightarrow>
          \<lparr>outcome = Inr None, layers_after = layers', logged = errors, calls = cs\<rparr>)"

text \<open>The validation loop of \<^verbatim>\<open>initialize\<close>, from the layer at position \<open>k\<close> on.\<close>

fun validate_loop ::
  "('l, 'v, 'd) layer_ops \<Rightarrow> nat \<Rightarrow> 'l list \<Rightarrow> error list \<times> 'v call list" where
  "validate_loop ops k [] = ([], [])"
| "validate_loop ops k (layer # rest) =
     (case validate_loop ops (Suc k) rest of
        (errors, cs) \<Rightarrow>
          (log_error (validatePrefs ops layer) @ errors, ValidatePrefs k # cs))"

text \<open>
  \<^verbatim>\<open>createLayers\<close> is virtual and defined by the subclasses: it is a parameter, which
  takes \<^verbatim>\<open>layers_\<close> and returns an error and the new \<^verbatim>\<open>layers_\<close>.
\<close>

definition initialize ::
  "('l list \<Rightarrow> error option \<times> 'l list) \<Rightarrow> ('l, 'v, 'd) layer_ops \<Rightarrow> 'l list \<Rightarrow> ('l, 'v) run" where
  "initialize createLayers ops layers =
     (case createLayers layers of
        (Some error, created) \<Rightarrow>
          \<lparr>outcome = Inr (Some error), layers_after = created, logged = [], calls = []\<rparr>
      | (None, created) \<Rightarrow>
          (let r = readLayers ops created in
           case outcome r of
             Inr (Some error) \<Rightarrow> r
           | Inl f \<Rightarrow> r
           | Inr None \<Rightarrow>
               (case validate_loop ops 0 (layers_after r) of
                  (errors, cs) \<Rightarrow>
                    \<lparr>outcome = Inr None, layers_after = layers_after r,
                     logged = logged r @ errors, calls = calls r @ cs\<rparr>)))"

section \<open>writeLayer\<close>

text \<open>
  The inner loop of \<^verbatim>\<open>writeLayer\<close>:
  \<^verbatim>\<open>for (size_t i = layer - 1; i >= 0; --i)\<close>. The counter is a \<^verbatim>\<open>size_t\<close>, so
  \<open>0 \<le> i\<close> always holds and \<open>i - 1\<close> wraps at 0. The result is the calls made and
  either a fault or the flags \<open>(found, differs)\<close> at the end of the loop.

  The source indexes \<^verbatim>\<open>layers_[i]\<close> with no test. The test \<open>i < vsize layers\<close> is the
  model's: it marks the point where the source's behaviour stops being defined. What
  the source does after an out-of-range read is not modelled, and \<open>OutOfRange i\<close> says
  only that this read happened.
\<close>

function lower_scan ::
  "('l, 'v, 'd) layer_ops \<Rightarrow> 'l list \<Rightarrow> string \<Rightarrow> 'v \<Rightarrow> size_t
     \<Rightarrow> 'v call list \<times> (fault + bool \<times> bool)" where
  "lower_scan ops layers name value i =
     (if 0 \<le> i then
        (if i < vsize layers then
           (case readValue ops (layers ! unat i) name of
              Some val \<Rightarrow> ([ReadValue i name], Inr (True, \<not> (val = value)))
            | None \<Rightarrow>
                (case lower_scan ops layers name value (i - 1) of
                   (cs, r) \<Rightarrow> (ReadValue i name # cs, r)))
         else ([], Inl (OutOfRange i)))
      else ([], Inr (False, False)))"
  by pat_completeness auto

text \<open>
  The loop ends: it continues only from an index below \<^verbatim>\<open>layers_.size()\<close>, and the index
  it reaches by wrapping at 0, the largest \<^verbatim>\<open>size_t\<close>, is never below a \<^verbatim>\<open>size_t\<close>.
\<close>

termination lower_scan
proof (relation "measure (\<lambda>(ops, layers, name, value, i). unat (i + 1))")
  show "wf (measure (\<lambda>(ops, layers, name, value, i). unat (i + 1)))"
    by simp
next
  fix ops :: "('l, 'v, 'd) layer_ops" and layers :: "'l list" and name :: string
    and v :: 'v and i :: size_t
  assume "i < vsize layers"
  then have "unat i < unat (i + 1)"
    by unat_arith
  then show "((ops, layers, name, v, i - 1), (ops, layers, name, v, i))
      \<in> measure (\<lambda>(ops, layers, name, value, i). unat (i + 1))"
    by simp
qed

declare lower_scan.simps [simp del]

text \<open>
  The outer loop of \<^verbatim>\<open>writeLayer\<close> over the members of \<^verbatim>\<open>prefs\<close>, with the object
  \<^verbatim>\<open>unique\<close> built so far. A fault of the inner loop ends it.
\<close>

fun unique_loop ::
  "('l, 'v, 'd) layer_ops \<Rightarrow> 'l list \<Rightarrow> size_t \<Rightarrow> 'v object \<Rightarrow> 'v object
     \<Rightarrow> 'v call list \<times> (fault + 'v object)" where
  "unique_loop ops layers layer [] unique = ([], Inr unique)"
| "unique_loop ops layers layer (pref # prefs) unique =
     (case lower_scan ops layers (fst pref) (snd pref) (layer - 1) of
        (cs, Inl f) \<Rightarrow> (cs, Inl f)
      | (cs, Inr (found, differs)) \<Rightarrow>
          (case unique_loop ops layers layer prefs
                  (if \<not> found \<or> differs
                   then AList.update (fst pref) (snd pref) unique else unique) of
             (cs', r) \<Rightarrow> (cs @ cs', r)))"

definition writeLayer ::
  "('l, 'v, 'd) layer_ops \<Rightarrow> 'l list \<Rightarrow> size_t \<Rightarrow> 'v object \<Rightarrow> ('l, 'v) run" where
  "writeLayer ops layers layer prefs =
     (if vsize layers \<le> layer \<or> layer < 1 then
        \<lparr>outcome = Inr (Some InvalidArgument), layers_after = layers, logged = [], calls = []\<rparr>
      else
        (case unique_loop ops layers layer prefs [] of
           (cs, Inl f) \<Rightarrow>
             \<lparr>outcome = Inl f, layers_after = layers, logged = [], calls = cs\<rparr>
         | (cs, Inr unique) \<Rightarrow>
             (case writePrefs ops unique (layers ! unat layer) of
                (result, target) \<Rightarrow>
                  \<lparr>outcome = Inr (case result of Some e \<Rightarrow> Some e | None \<Rightarrow> None),
                   layers_after = layers[unat layer := target], logged = [],
                   calls = cs @ [WritePrefs layer unique]\<rparr>)))"

text \<open>The calls of \<^verbatim>\<open>writePrefs\<close> among the calls made.\<close>

fun is_write :: "'v call \<Rightarrow> bool" where
  "is_write (WritePrefs i values) = True"
| "is_write c = False"

definition writes :: "'v call list \<Rightarrow> 'v call list" where
  "writes cs = filter is_write cs"

section \<open>The spec's notions\<close>

text \<open>
  The value stored by the nearest layer below index \<open>n\<close> that defines \<open>name\<close>: the
  first defining layer found from \<open>n - 1\<close> downward, \<open>None\<close> when no layer below \<open>n\<close>
  defines it. This follows the spec's description of the scan, not the source's loop.
\<close>

fun nearest_lower :: "('l, 'v, 'd) layer_ops \<Rightarrow> 'l list \<Rightarrow> nat \<Rightarrow> string \<Rightarrow> 'v option" where
  "nearest_lower ops layers 0 name = None"
| "nearest_lower ops layers (Suc n) name =
     (case readValue ops (layers ! n) name of
        Some v \<Rightarrow> Some v
      | None \<Rightarrow> nearest_lower ops layers n name)"

text \<open>
  The spec's rule for one proposed pair (steps 2 to 4 of the algorithm): it is unique
  unless the nearest lower layer that defines its name stores an equal value.
\<close>

definition is_unique :: "('l, 'v, 'd) layer_ops \<Rightarrow> 'l list \<Rightarrow> nat \<Rightarrow> string \<times> 'v \<Rightarrow> bool" where
  "is_unique ops layers n pref = (nearest_lower ops layers n (fst pref) \<noteq> Some (snd pref))"

text \<open>
  The minimized set of step 5: the unique pairs, collected in the order of the proposed
  object.
\<close>

definition minimized :: "('l, 'v, 'd) layer_ops \<Rightarrow> 'l list \<Rightarrow> nat \<Rightarrow> 'v object \<Rightarrow> 'v object" where
  "minimized ops layers n prefs =
     fold (\<lambda>p u. if is_unique ops layers n p then AList.update (fst p) (snd p) u else u) prefs []"

text \<open>Every proposed name is defined by some layer below index \<open>n\<close>.\<close>

definition all_defined :: "('l, 'v, 'd) layer_ops \<Rightarrow> 'l list \<Rightarrow> nat \<Rightarrow> 'v object \<Rightarrow> bool" where
  "all_defined ops layers n prefs = list_all (\<lambda>p. nearest_lower ops layers n (fst p) \<noteq> None) prefs"

section \<open>A layer\<close>

text \<open>
  Modelled from the spec: the layer class \<^verbatim>\<open>PrefLayer\<close> is not in the source file. The
  spec's layer holds a mapping from names to values in memory (\<open>content\<close>) and a
  persisted copy (\<open>storage\<close>, \<open>None\<close> when the backing store cannot be used).
  \<open>readPrefs\<close> loads the persisted content into memory and fails on an unusable
  store; \<open>writePrefs\<close> adds or updates the given pairs and persists the result, or
  fails and changes nothing; \<open>validatePrefs\<close> checks the content against the schema,
  which is a parameter; \<open>readValue\<close> is the layer's own value of a name; \<open>allPrefs\<close>
  is the content.
\<close>

record 'v layer =
  content :: "'v object"
  storage :: "'v object option"

definition layer_readPrefs :: "'v layer \<Rightarrow> error option \<times> 'v layer" where
  "layer_readPrefs l =
     (case storage l of
        None \<Rightarrow> (Some IoOrStorageError, l)
      | Some stored \<Rightarrow> (None, l\<lparr>content := stored\<rparr>))"

definition layer_writePrefs :: "'v object \<Rightarrow> 'v layer \<Rightarrow> error option \<times> 'v layer" where
  "layer_writePrefs values l =
     (case storage l of
        None \<Rightarrow> (Some IoOrStorageError, l)
      | Some stored \<Rightarrow>
          (let new = fold (\<lambda>pref. AList.update (fst pref) (snd pref)) values (content l)
           in (None, \<lparr>content = new, storage = Some new\<rparr>)))"

definition layer_validatePrefs :: "('v object \<Rightarrow> bool) \<Rightarrow> 'v layer \<Rightarrow> error option" where
  "layer_validatePrefs schema l = (if schema (content l) then None else Some ValidationError)"

definition layer_readValue :: "'v layer \<Rightarrow> string \<Rightarrow> 'v option" where
  "layer_readValue l name = map_of (content l) name"

definition layer_impl :: "('v object \<Rightarrow> bool) \<Rightarrow> ('v layer, 'v, 'v object) layer_ops" where
  "layer_impl schema =
     \<lparr>readPrefs = layer_readPrefs, writePrefs = layer_writePrefs,
      validatePrefs = layer_validatePrefs schema, readValue = layer_readValue,
      allPrefs = content\<rparr>"

text \<open>A layer of the spec whose store and memory both hold \<open>prefs\<close>.\<close>

definition layer_of :: "'v object \<Rightarrow> 'v layer" where
  "layer_of prefs = \<lparr>content = prefs, storage = Some prefs\<rparr>"

section \<open>Facts about the model\<close>

subsection \<open>Indices\<close>

lemma max_not_below: "\<not> (- 1 < j)" for j :: size_t
  by simp

lemma pred_below: "i < j \<Longrightarrow> i \<noteq> 0 \<Longrightarrow> i - 1 < j" for i j :: size_t
  by unat_arith

lemma unat_pred: "i \<noteq> 0 \<Longrightarrow> Suc (unat (i - 1)) = unat i" for i :: size_t
  by unat_arith

lemma below_vsize: "i < vsize xs \<Longrightarrow> unat i < length xs"
proof -
  assume "i < vsize xs"
  then have "unat i < unat (of_nat (length xs) :: size_t)"
    by (simp add: vsize_def word_less_nat_alt)
  also have "\<dots> \<le> length xs"
    by (simp add: unat_of_nat)
  finally show ?thesis .
qed

lemma vsize_update: "vsize (xs[n := x]) = vsize xs"
  by (simp add: vsize_def)

lemma valid_index: "1 \<le> layer \<Longrightarrow> layer < vsize layers \<Longrightarrow> \<not> (vsize layers \<le> layer \<or> layer < 1)"
  for layer :: size_t
  by (auto simp: word_less_1)

subsection \<open>The nearest lower value\<close>

lemma nearest_lower_None_iff:
  "nearest_lower ops layers n name = None \<longleftrightarrow> (\<forall>j<n. readValue ops (layers ! j) name = None)"
  by (induction n) (auto simp: less_Suc_eq split: option.splits)

lemma nearest_lower_Some_iff:
  "nearest_lower ops layers n name = Some v \<longleftrightarrow>
     (\<exists>j<n. readValue ops (layers ! j) name = Some v \<and>
        (\<forall>k. j < k \<and> k < n \<longrightarrow> readValue ops (layers ! k) name = None))"
proof (induction n)
  case 0
  show ?case by simp
next
  case (Suc n)
  show ?case
  proof (cases "readValue ops (layers ! n) name")
    case None
    have "(\<exists>j<Suc n. readValue ops (layers ! j) name = Some v \<and>
        (\<forall>k. j < k \<and> k < Suc n \<longrightarrow> readValue ops (layers ! k) name = None)) \<longleftrightarrow>
      (\<exists>j<n. readValue ops (layers ! j) name = Some v \<and>
        (\<forall>k. j < k \<and> k < n \<longrightarrow> readValue ops (layers ! k) name = None))"
      using None by (metis less_Suc_eq option.distinct(1))
    with None Suc show ?thesis by simp
  next
    case (Some w)
    have "(\<exists>j<Suc n. readValue ops (layers ! j) name = Some v \<and>
        (\<forall>k. j < k \<and> k < Suc n \<longrightarrow> readValue ops (layers ! k) name = None)) \<longleftrightarrow> w = v"
      using Some by (metis less_Suc_eq lessI option.distinct(1) option.inject not_less_iff_gr_or_eq)
    with Some show ?thesis by simp
  qed
qed

lemma nearest_lower_lower_only:
  "take n layers = take n layers' \<Longrightarrow> nearest_lower ops layers n name = nearest_lower ops layers' n name"
proof (induction n)
  case 0
  show ?case by simp
next
  case (Suc n)
  have "take (Suc n) layers ! n = take (Suc n) layers' ! n"
    using Suc.prems by simp
  then have same: "layers ! n = layers' ! n"
    by simp
  have "take n (take (Suc n) layers) = take n (take (Suc n) layers')"
    using Suc.prems by simp
  then have "take n layers = take n layers'"
    by simp
  with Suc.IH same show ?case
    by (simp split: option.splits)
qed

subsection \<open>The inner loop\<close>

lemma lower_scan_wrapped: "lower_scan ops layers name v (- 1) = ([], Inl (OutOfRange (- 1)))"
  by (subst lower_scan.simps) simp

lemma lower_scan_result:
  "i < vsize layers \<Longrightarrow>
   snd (lower_scan ops layers name value i) =
     (case nearest_lower ops layers (Suc (unat i)) name of
        Some val \<Rightarrow> Inr (True, val \<noteq> value)
      | None \<Rightarrow> Inl (OutOfRange (- 1)))"
proof (induction "unat i" arbitrary: i)
  case 0
  then have i0: "i = 0" by (simp add: unat_eq_0)
  show ?case using 0(2) unfolding i0
    by (subst lower_scan.simps) (simp split: option.splits prod.splits add: lower_scan.simps [of _ _ _ _ "- 1"])
next
  case (Suc n)
  then have ne: "i \<noteq> 0" by auto
  have n: "n = unat (i - 1)" using Suc(2) unat_pred [OF ne] by simp
  have lt: "i - 1 < vsize layers" using Suc(3) ne by (rule pred_below)
  note IH = Suc(1) [OF n lt]
  show ?case using Suc(3) IH unat_pred [OF ne]
    by (subst lower_scan.simps) (auto split: option.splits prod.splits)
qed

lemma lower_scan_undefined_name:
  assumes "i < vsize layers" and "\<forall>j\<le>unat i. readValue ops (layers ! j) name = None"
  shows "snd (lower_scan ops layers name v i) = Inl (OutOfRange (- 1))"
proof -
  have "nearest_lower ops layers (Suc (unat i)) name = None"
    using assms(2) by (simp add: nearest_lower_None_iff less_Suc_eq_le)
  then show ?thesis
    by (simp add: lower_scan_result [OF assms(1)])
qed

lemma lower_scan_no_write:
  "c \<in> set (fst (lower_scan ops layers name v i)) \<Longrightarrow> \<not> is_write c"
proof (induction ops layers name v i arbitrary: c rule: lower_scan.induct)
  case (1 ops layers name v i)
  from "1.prems" have "c \<in> set (fst (
     (if 0 \<le> i then
        (if i < vsize layers then
           (case readValue ops (layers ! unat i) name of
              Some val \<Rightarrow> ([ReadValue i name], Inr (True, \<not> (val = v)))
            | None \<Rightarrow>
                (case lower_scan ops layers name v (i - 1) of
                   (cs, r) \<Rightarrow> (ReadValue i name # cs, r)))
         else ([], Inl (OutOfRange i)))
      else ([], Inr (False, False)))))"
    by (subst (asm) lower_scan.simps)
  then show ?case using "1.IH"
    by (auto split: if_splits option.splits prod.splits)
qed

lemma lower_scan_lower_only:
  "i < vsize layers \<Longrightarrow> i < vsize layers' \<Longrightarrow>
   take (Suc (unat i)) layers = take (Suc (unat i)) layers' \<Longrightarrow>
   lower_scan ops layers name v i = lower_scan ops layers' name v i"
proof (induction "unat i" arbitrary: i)
  case 0
  then have i0: "i = 0"
    by (simp add: unat_eq_0)
  have "take (Suc 0) layers ! 0 = take (Suc 0) layers' ! 0"
    using 0 by simp
  then have same: "layers ! 0 = layers' ! 0"
    by simp
  show ?case
    using 0(2,3) same unfolding i0
    by (subst (1 2) lower_scan.simps) (simp add: lower_scan_wrapped split: option.splits)
next
  case (Suc n)
  then have ne: "i \<noteq> 0"
    by auto
  have n: "n = unat (i - 1)"
    using Suc(2) unat_pred [OF ne] by simp
  have "take (Suc (unat i)) layers ! unat i = take (Suc (unat i)) layers' ! unat i"
    using Suc(5) by simp
  then have same: "layers ! unat i = layers' ! unat i"
    by simp
  have "take (unat i) (take (Suc (unat i)) layers) = take (unat i) (take (Suc (unat i)) layers')"
    using Suc(5) by simp
  then have "take (unat i) layers = take (unat i) layers'"
    by simp
  then have lower: "take (Suc (unat (i - 1))) layers = take (Suc (unat (i - 1))) layers'"
    using unat_pred [OF ne] by simp
  note IH = Suc(1) [OF n pred_below [OF Suc(3) ne] pred_below [OF Suc(4) ne] lower]
  show ?case
    using Suc(3,4) same IH
    by (subst (1 2) lower_scan.simps) (simp split: option.splits)
qed

subsection \<open>The outer loop\<close>

lemma update_fresh: "k \<notin> fst ` set al \<Longrightarrow> AList.update k v al = al @ [(k, v)]"
  by (induction al) auto

lemma fold_update_filter:
  "distinct (map fst ps) \<Longrightarrow> fst ` set ps \<inter> fst ` set acc = {} \<Longrightarrow>
   fold (\<lambda>p u. if P p then AList.update (fst p) (snd p) u else u) ps acc = acc @ filter P ps"
proof (induction ps arbitrary: acc)
  case Nil
  show ?case by simp
next
  case (Cons p ps)
  have fresh: "fst p \<notin> fst ` set acc"
    using Cons.prems(2) by auto
  have d: "distinct (map fst ps)"
    using Cons.prems(1) by simp
  show ?case
  proof (cases "P p")
    case True
    have "fst ` set ps \<inter> fst ` set (acc @ [p]) = {}"
      using Cons.prems by auto
    from Cons.IH [OF d this] True fresh show ?thesis
      by (simp add: update_fresh)
  next
    case False
    have "fst ` set ps \<inter> fst ` set acc = {}"
      using Cons.prems(2) by auto
    from Cons.IH [OF d this] False show ?thesis
      by simp
  qed
qed

lemma minimized_distinct:
  "distinct (map fst prefs) \<Longrightarrow> minimized ops layers n prefs = filter (is_unique ops layers n) prefs"
  unfolding minimized_def using fold_update_filter [of prefs "[]" "is_unique ops layers n"]
  by simp

lemma distinct_minimized:
  "distinct (map fst prefs) \<Longrightarrow> distinct (map fst (minimized ops layers n prefs))"
  by (simp add: minimized_distinct distinct_map_filter)

lemma unique_loop_result:
  assumes "layer \<noteq> 0" "layer < vsize layers"
  shows "snd (unique_loop ops layers layer prefs acc) =
     (if all_defined ops layers (unat layer) prefs
      then Inr (fold (\<lambda>p u. if is_unique ops layers (unat layer) p
                            then AList.update (fst p) (snd p) u else u) prefs acc)
      else Inl (OutOfRange (- 1)))"
proof (induction prefs arbitrary: acc)
  case Nil
  show ?case by (simp add: all_defined_def)
next
  case (Cons p prefs)
  have lt: "layer - 1 < vsize layers"
    using assms(2) assms(1) by (rule pred_below)
  have scan: "snd (lower_scan ops layers (fst p) (snd p) (layer - 1)) =
     (case nearest_lower ops layers (unat layer) (fst p) of
        Some val \<Rightarrow> Inr (True, val \<noteq> snd p)
      | None \<Rightarrow> Inl (OutOfRange (- 1)))"
    using lower_scan_result [OF lt] unat_pred [OF assms(1)] by simp
  obtain cs r where s: "lower_scan ops layers (fst p) (snd p) (layer - 1) = (cs, r)"
    by (cases "lower_scan ops layers (fst p) (snd p) (layer - 1)")
  show ?case
  proof (cases "nearest_lower ops layers (unat layer) (fst p)")
    case None
    with scan s show ?thesis
      by (simp add: all_defined_def)
  next
    case (Some val)
    with scan s have r: "r = Inr (True, val \<noteq> snd p)"
      by simp
    show ?thesis
      using Cons.IH Some s r
      by (simp add: all_defined_def is_unique_def split_beta)
  qed
qed

lemma unique_loop_no_write:
  "c \<in> set (fst (unique_loop ops layers layer prefs acc)) \<Longrightarrow> \<not> is_write c"
proof (induction prefs arbitrary: acc)
  case Nil
  then show ?case by simp
next
  case (Cons p prefs)
  obtain cs r where s: "lower_scan ops layers (fst p) (snd p) (layer - 1) = (cs, r)"
    by (cases "lower_scan ops layers (fst p) (snd p) (layer - 1)")
  have cs: "c \<in> set cs \<Longrightarrow> \<not> is_write c"
    using lower_scan_no_write [of c ops layers "fst p" "snd p" "layer - 1"] s by simp
  show ?case
  proof (cases r)
    case (Inl f)
    with Cons.prems s cs show ?thesis by simp
  next
    case (Inr fd)
    with Cons.prems s cs Cons.IH show ?thesis
      by (cases fd) (auto simp: split_beta)
  qed
qed

lemma unique_loop_lower_only:
  assumes "1 \<le> layer" and "layer < vsize layers" and "layer < vsize layers'"
    and "take (unat layer) layers = take (unat layer) layers'"
  shows "unique_loop ops layers layer prefs acc = unique_loop ops layers' layer prefs acc"
proof -
  have ne: "layer \<noteq> 0"
    using assms(1) by auto
  have scan: "lower_scan ops layers name v (layer - 1) = lower_scan ops layers' name v (layer - 1)"
    for name v
    using lower_scan_lower_only [OF pred_below [OF assms(2) ne] pred_below [OF assms(3) ne]]
      assms(4) unat_pred [OF ne] by simp
  show ?thesis
    by (induction prefs arbitrary: acc) (simp_all add: scan)
qed

subsection \<open>writeLayer at a valid index\<close>

lemma writes_no_write: "(\<And>c. c \<in> set cs \<Longrightarrow> \<not> is_write c) \<Longrightarrow> writes cs = []"
  by (simp add: writes_def filter_empty_conv)

lemma writeLayer_valid:
  assumes "1 \<le> layer" "layer < vsize layers"
  shows "writeLayer ops layers layer prefs =
     (if all_defined ops layers (unat layer) prefs then
        \<lparr>outcome = Inr (fst (writePrefs ops (minimized ops layers (unat layer) prefs)
                                (layers ! unat layer))),
         layers_after = layers[unat layer :=
                                snd (writePrefs ops (minimized ops layers (unat layer) prefs)
                                       (layers ! unat layer))],
         logged = [],
         calls = fst (unique_loop ops layers layer prefs []) @
                   [WritePrefs layer (minimized ops layers (unat layer) prefs)]\<rparr>
      else
        \<lparr>outcome = Inl (OutOfRange (- 1)), layers_after = layers, logged = [],
         calls = fst (unique_loop ops layers layer prefs [])\<rparr>)"
proof -
  have ne: "layer \<noteq> 0"
    using assms(1) by auto
  obtain cs r where u: "unique_loop ops layers layer prefs [] = (cs, r)"
    by (cases "unique_loop ops layers layer prefs []")
  have r: "r =
     (if all_defined ops layers (unat layer) prefs
      then Inr (minimized ops layers (unat layer) prefs)
      else Inl (OutOfRange (- 1)))"
    using unique_loop_result [OF ne assms(2), of ops prefs "[]"] u
    by (simp add: minimized_def)
  have res: "(case result of Some e \<Rightarrow> Some e | None \<Rightarrow> None) = result" for result :: "error option"
    by (cases result) simp_all
  show ?thesis
    unfolding writeLayer_def using valid_index [OF assms] u r
    by (simp add: split_beta res)
qed

lemma writeLayer_writes:
  assumes "1 \<le> layer" "layer < vsize layers"
  shows "writes (calls (writeLayer ops layers layer prefs)) =
     (if all_defined ops layers (unat layer) prefs
      then [WritePrefs layer (minimized ops layers (unat layer) prefs)] else [])"
proof -
  have "writes (fst (unique_loop ops layers layer prefs [])) = []"
    by (rule writes_no_write) (rule unique_loop_no_write)
  then show ?thesis
    by (simp add: writeLayer_valid [OF assms] writes_def)
qed

lemma writeLayer_written:
  assumes "1 \<le> layer" "layer < vsize layers"
    and "WritePrefs l u \<in> set (calls (writeLayer ops layers layer prefs))"
  shows "l = layer \<and> u = minimized ops layers (unat layer) prefs \<and>
     all_defined ops layers (unat layer) prefs"
proof -
  have "WritePrefs l u \<in> set (writes (calls (writeLayer ops layers layer prefs)))"
    using assms(3) by (simp add: writes_def)
  then show ?thesis
    by (simp add: writeLayer_writes [OF assms(1,2)] split: if_splits)
qed

lemma not_all_defined:
  "(name, v) \<in> set prefs \<Longrightarrow> \<forall>j<n. readValue ops (layers ! j) name = None \<Longrightarrow>
   \<not> all_defined ops layers n prefs"
  by (force simp: all_defined_def list_all_iff nearest_lower_None_iff)

lemma writeLayer_undefined_name:
  assumes "1 \<le> layer" and "layer < vsize layers"
    and "(name, v) \<in> set prefs"
    and "\<forall>j<unat layer. readValue ops (layers ! j) name = None"
  shows "outcome (writeLayer ops layers layer prefs) = Inl (OutOfRange (- 1))"
    and "layers_after (writeLayer ops layers layer prefs) = layers"
    and "writes (calls (writeLayer ops layers layer prefs)) = []"
proof -
  note nd = not_all_defined [OF assms(3,4)]
  show "outcome (writeLayer ops layers layer prefs) = Inl (OutOfRange (- 1))"
    using nd by (simp add: writeLayer_valid [OF assms(1,2)])
  show "layers_after (writeLayer ops layers layer prefs) = layers"
    using nd by (simp add: writeLayer_valid [OF assms(1,2)])
  show "writes (calls (writeLayer ops layers layer prefs)) = []"
    using nd writeLayer_writes [OF assms(1,2), of ops prefs] by simp
qed

subsection \<open>The loops over all layers\<close>



subsection \<open>The spec's layer\<close>

lemma layer_impl_sel:
  "readPrefs (layer_impl schema) = layer_readPrefs"
  "writePrefs (layer_impl schema) = layer_writePrefs"
  "validatePrefs (layer_impl schema) = layer_validatePrefs schema"
  "readValue (layer_impl schema) = layer_readValue"
  "allPrefs (layer_impl schema) = content"
  by (simp_all add: layer_impl_def)

lemma layer_of_sel:
  "content (layer_of prefs) = prefs"
  "storage (layer_of prefs) = Some prefs"
  by (simp_all add: layer_of_def)

lemma fold_update_same:
  "(\<And>k v. (k, v) \<in> set values \<Longrightarrow> map_of al k = Some v) \<Longrightarrow>
   fold (\<lambda>pref. AList.update (fst pref) (snd pref)) values al = al"
proof (induction "values")
  case Nil
  show ?case by simp
next
  case (Cons p ps)
  have "map_of al (fst p) = Some (snd p)"
    using Cons.prems [of "fst p" "snd p"] by simp
  then have "AList.update (fst p) (snd p) al = al"
    by (rule update_triv)
  with Cons show ?case
    by simp
qed

lemma map_of_fold_update:
  "distinct (map fst values) \<Longrightarrow> (k, v) \<in> set values \<Longrightarrow>
   map_of (fold (\<lambda>pref. AList.update (fst pref) (snd pref)) values al) k = Some v"
proof (induction "values" arbitrary: al)
  case Nil
  then show ?case by simp
next
  case (Cons p ps)
  show ?case
  proof (cases "(k, v) \<in> set ps")
    case True
    with Cons show ?thesis by simp
  next
    case False
    with Cons.prems have p: "p = (k, v)"
      by simp
    with Cons.prems have fresh: "k \<notin> fst ` set ps"
      by simp
    have keep: "map_of (fold (\<lambda>pref. AList.update (fst pref) (snd pref)) ps bl) k = map_of bl k" for bl
      using fresh by (induction ps arbitrary: bl) (auto simp: update_conv')
    show ?thesis
      by (simp add: p keep update_conv')
  qed
qed

lemma layer_writePrefs_twice:
  assumes "distinct (map fst values)" and "layer_writePrefs values l = (None, l')"
  shows "layer_writePrefs values l' = (None, l')"
proof -
  obtain stored where s: "storage l = Some stored"
    using assms(2) by (cases "storage l") (simp_all add: layer_writePrefs_def)
  let ?new = "fold (\<lambda>pref. AList.update (fst pref) (snd pref)) values (content l)"
  have l': "l' = \<lparr>content = ?new, storage = Some ?new\<rparr>"
    using assms(2) s by (simp add: layer_writePrefs_def Let_def)
  have "fold (\<lambda>pref. AList.update (fst pref) (snd pref)) values ?new = ?new"
    by (rule fold_update_same) (rule map_of_fold_update [OF assms(1)])
  then show ?thesis
    by (simp add: l' layer_writePrefs_def Let_def)
qed

subsection \<open>Runs on small stacks\<close>

lemma scenario_light:
  "calls (writeLayer (layer_impl (\<lambda>d. True))
     [layer_of [(''theme'', ''light'')], layer_of []] 1 [(''theme'', ''light'')]) =
   [ReadValue 0 ''theme'', WritePrefs 1 []]"
  by code_simp

lemma scenario_dark:
  "calls (writeLayer (layer_impl (\<lambda>d. True))
     [layer_of [(''theme'', ''light'')], layer_of []] 1 [(''theme'', ''dark'')]) =
   [ReadValue 0 ''theme'', WritePrefs 1 [(''theme'', ''dark'')]]"
  by code_simp

lemma scenario_dark_run:
  "writeLayer (layer_impl (\<lambda>d. True))
     [layer_of [(''theme'', ''light'')], layer_of []] 1 [(''theme'', ''dark'')] =
   \<lparr>outcome = Inr None,
    layers_after =
      [layer_of [(''theme'', ''light'')], layer_of [(''theme'', ''dark'')]],
    logged = [],
    calls = [ReadValue 0 ''theme'', WritePrefs 1 [(''theme'', ''dark'')]]\<rparr>"
  by code_simp

lemma scenario_broken_target:
  "writeLayer (layer_impl (\<lambda>d. True))
     [layer_of [(''theme'', ''light'')],
      \<lparr>content = [], storage = None\<rparr>] 1 [(''theme'', ''dark'')] =
   \<lparr>outcome = Inr (Some IoOrStorageError),
    layers_after =
      [layer_of [(''theme'', ''light'')],
       \<lparr>content = [], storage = None\<rparr>],
    logged = [],
    calls = [ReadValue 0 ''theme'', WritePrefs 1 [(''theme'', ''dark'')]]\<rparr>"
  by code_simp

lemma scenario_initialize:
  "initialize (\<lambda>layers. (None,
       [\<lparr>content = [], storage = Some [(''theme'', ''light'')]\<rparr>,
        \<lparr>content = [], storage = None\<rparr>,
        layer_of []]))
     (layer_impl (\<lambda>d. d \<noteq> [])) [] =
   \<lparr>outcome = Inr None,
    layers_after =
      [layer_of [(''theme'', ''light'')],
       \<lparr>content = [], storage = None\<rparr>,
       layer_of []],
    logged = [IoOrStorageError, ValidationError, ValidationError],
    calls = [ReadPrefs 0, ReadPrefs 1, ReadPrefs 2,
             ValidatePrefs 0, ValidatePrefs 1, ValidatePrefs 2]\<rparr>"
  by code_simp

subsection \<open>The written set, when the write is reached\<close>

text \<open>
  When \<open>writeLayer\<close> reaches \<open>writePrefs\<close>, every proposed name has a value in some lower
  layer, and the set written holds a proposed pair if and only if the nearest lower
  value of its name differs. Two stacks that agree below the target then get the same
  calls.
\<close>

lemma written_set_iff_differs:
  assumes "1 \<le> layer" and "layer < vsize layers"
    and "distinct (map fst prefs)" and "(name, value) \<in> set prefs"
    and "j < unat layer" and "readValue ops (layers ! j) name = Some val"
    and "\<forall>k. j < k \<and> k < unat layer \<longrightarrow> readValue ops (layers ! k) name = None"
    and "WritePrefs layer unique \<in> set (calls (writeLayer ops layers layer prefs))"
  shows "((name, value) \<in> set unique \<longleftrightarrow> val \<noteq> value) \<and>
         (val = value \<longrightarrow> name \<notin> fst ` set unique)"
proof -
  have near: "nearest_lower ops layers (unat layer) name = Some val"
    using assms(5,6,7) by (auto simp: nearest_lower_Some_iff)
  have u: "unique = filter (is_unique ops layers (unat layer)) prefs"
    using writeLayer_written [OF assms(1,2,8)] minimized_distinct [OF assms(3)] by simp
  have iff: "(name, value) \<in> set unique \<longleftrightarrow> val \<noteq> value"
    using u near assms(4) by (auto simp: is_unique_def)
  have "name \<notin> fst ` set unique" if eq: "val = value"
  proof
    assume "name \<in> fst ` set unique"
    then obtain w where w: "(name, w) \<in> set unique"
      by force
    then have "(name, w) \<in> set prefs"
      using u by simp
    then have "w = value"
      using assms(3,4) by (meson eq_key_imp_eq_value)
    with w iff eq show False
      by simp
  qed
  with iff show ?thesis
    by simp
qed

lemma written_set_iff_differs_example:
  "WritePrefs 1 [(''theme'', ''dark'')] \<in> set (calls (writeLayer (layer_impl (\<lambda>d. True))
     [layer_of [(''theme'', ''light'')], layer_of []] 1 [(''theme'', ''dark'')])) \<and>
   (''theme'', ''dark'') \<in> set [(''theme'', ''dark'')] \<and>
   WritePrefs 1 [] \<in> set (calls (writeLayer (layer_impl (\<lambda>d. True))
     [layer_of [(''theme'', ''light'')], layer_of []] 1 [(''theme'', ''light'')])) \<and>
   ''theme'' \<notin> fst ` set ([] :: string object)"
  using written_set_iff_differs [of 1
      "[layer_of [(''theme'', ''light'')], layer_of []]"
      "[(''theme'', ''dark'')]" "''theme''" "''dark''" 0 "layer_impl (\<lambda>d. True)" "''light''"
      "[(''theme'', ''dark'')]"]
    written_set_iff_differs [of 1
      "[layer_of [(''theme'', ''light'')], layer_of []]"
      "[(''theme'', ''light'')]" "''theme''" "''light''" 0 "layer_impl (\<lambda>d. True)" "''light''"
      "[]"]
  by (simp add: scenario_light scenario_dark vsize_def layer_impl_sel layer_readValue_def layer_of_sel)

lemma calls_same_when_defined:
  assumes "1 \<le> layer" and "layer < vsize layers" and "layer < vsize layers'"
    and "take (unat layer) layers = take (unat layer) layers'"
    and "all_defined ops layers (unat layer) prefs"
  shows "calls (writeLayer ops layers layer prefs) = calls (writeLayer ops layers' layer prefs)"
proof -
  have "all_defined ops layers (unat layer) prefs = all_defined ops layers' (unat layer) prefs"
    by (simp add: all_defined_def nearest_lower_lower_only [OF assms(4)])
  moreover have "minimized ops layers (unat layer) prefs = minimized ops layers' (unat layer) prefs"
    by (simp add: minimized_def is_unique_def nearest_lower_lower_only [OF assms(4)])
  ultimately show ?thesis
    by (simp add: writeLayer_valid [OF assms(1,2)] writeLayer_valid [OF assms(1,3)]
        unique_loop_lower_only [OF assms(1,2,3,4)])
qed

section \<open>The claims\<close>

text \<open>
  C1. The code does not do this for every proposed object. The base layer stores theme,
  light and the user layer is empty; the proposed object for layer 1 is theme, dark and
  font, mono. The name theme is defined by layer 0 with a different value, so the claim
  has the pair theme, dark in the set passed to \<open>writePrefs\<close>. The scan for font, a name
  no lower layer defines, reads \<open>layers_\<close> at the index \<open>2 ^ 64 - 1\<close>: \<open>writeLayer\<close> does not
  return, no set is passed to \<open>writePrefs\<close> and the layers are as they were, in either
  order of the two members.
\<close>

theorem writeLayer_defined_pair_not_written:
  "readValue (layer_impl (\<lambda>d. True)) (layer_of [(''theme'', ''light'')]) ''theme'' = Some ''light'' \<and>
   writeLayer (layer_impl (\<lambda>d. True))
     [layer_of [(''theme'', ''light'')], layer_of []] 1
     [(''theme'', ''dark''), (''font'', ''mono'')] =
   \<lparr>outcome = Inl (OutOfRange 18446744073709551615),
    layers_after = [layer_of [(''theme'', ''light'')], layer_of []],
    logged = [],
    calls = [ReadValue 0 ''theme'', ReadValue 0 ''font'']\<rparr> \<and>
   writeLayer (layer_impl (\<lambda>d. True))
     [layer_of [(''theme'', ''light'')], layer_of []] 1
     [(''font'', ''mono''), (''theme'', ''dark'')] =
   \<lparr>outcome = Inl (OutOfRange 18446744073709551615),
    layers_after = [layer_of [(''theme'', ''light'')], layer_of []],
    logged = [],
    calls = [ReadValue 0 ''font'']\<rparr>"
  by code_simp

text \<open>
  C2. The code does not do this. The stack is an empty base layer and an empty user
  layer, and the proposed object for layer 1 is the single pair theme, dark, a name no
  lower layer defines. \<open>writeLayer\<close> reads layer 0, then reads \<open>layers_\<close> at the index
  \<open>2 ^ 64 - 1\<close>, outside the stack: it does not return, \<open>writePrefs\<close> is not called and
  the target layer stores nothing.
\<close>

theorem writeLayer_undefined_name_not_written:
  "writeLayer (layer_impl (\<lambda>d. True)) [layer_of [], layer_of []] 1 [(''theme'', ''dark'')] =
   \<lparr>outcome = Inl (OutOfRange 18446744073709551615),
    layers_after = [layer_of [], layer_of []],
    logged = [],
    calls = [ReadValue 0 ''theme'']\<rparr>"
  by code_simp

text \<open>
  C3. The code does not do this. With three layers of which the two lowest define no
  theme, the scan for layer 2 starts at index 1, reads the layers 1 and 0, and then
  indexes \<open>layers_\<close> at \<open>2 ^ 64 - 1\<close>: the counter has wrapped past 0, and the index is
  neither below the target index 2 nor inside the stack.
\<close>

theorem lower_scan_wraps_past_zero:
  "lower_scan (layer_impl (\<lambda>d. True))
     [layer_of [], layer_of [(''font'', ''mono'')], layer_of []]
     ''theme'' ''dark'' (2 - 1) =
     ([ReadValue 1 ''theme'', ReadValue 0 ''theme''], Inl (OutOfRange 18446744073709551615)) \<and>
   \<not> (18446744073709551615 :: size_t) < 2 \<and>
   \<not> (18446744073709551615 :: size_t) <
      vsize [layer_of [], layer_of [(''font'', ''mono'')], layer_of []]"
  by code_simp

text \<open>
  C4. With the index 0, or an index not below the size of the stack, \<open>writeLayer\<close>
  returns the error \<open>InvalidArgument\<close>, calls no method of any layer and leaves every
  layer as it was, whatever the proposed object.
\<close>

theorem writeLayer_invalid_index:
  assumes "layer = 0 \<or> vsize layers \<le> layer"
  shows "writeLayer ops layers layer prefs =
     \<lparr>outcome = Inr (Some InvalidArgument), layers_after = layers, logged = [], calls = []\<rparr>"
  using assms by (auto simp: writeLayer_def)

theorem writeLayer_invalid_index_witness:
  "writeLayer (layer_impl (\<lambda>d. True))
     [layer_of [(''theme'', ''light'')], layer_of []] 0 [(''theme'', ''dark'')] =
     \<lparr>outcome = Inr (Some InvalidArgument),
      layers_after =
        [layer_of [(''theme'', ''light'')], layer_of []],
      logged = [], calls = []\<rparr> \<and>
   writeLayer (layer_impl (\<lambda>d. True))
     [layer_of [(''theme'', ''light'')], layer_of []] 2 [(''theme'', ''dark'')] =
     \<lparr>outcome = Inr (Some InvalidArgument),
      layers_after =
        [layer_of [(''theme'', ''light'')], layer_of []],
      logged = [], calls = []\<rparr>"
  using writeLayer_invalid_index [of 0
      "[layer_of [(''theme'', ''light'')], layer_of []]"
      "layer_impl (\<lambda>d. True)" "[(''theme'', ''dark'')]"]
    writeLayer_invalid_index [of 2
      "[layer_of [(''theme'', ''light'')], layer_of []]"
      "layer_impl (\<lambda>d. True)" "[(''theme'', ''dark'')]"]
  by (simp add: vsize_def)



text \<open>
  C6. At a valid index, when the target layer's \<open>writePrefs\<close> is called and returns an
  error, \<open>writeLayer\<close> returns that error; the layers it leaves are the layers it found
  with the target as \<open>writePrefs\<close> left it, nothing is logged, and that call is the only
  call of \<open>writePrefs\<close> it made.
\<close>

theorem writeLayer_propagates_write_error:
  assumes "1 \<le> layer" and "layer < vsize layers"
    and "WritePrefs layer unique \<in> set (calls (writeLayer ops layers layer prefs))"
    and "writePrefs ops unique (layers ! unat layer) = (Some e, target)"
  shows "outcome (writeLayer ops layers layer prefs) = Inr (Some e) \<and>
         layers_after (writeLayer ops layers layer prefs) = layers[unat layer := target] \<and>
         logged (writeLayer ops layers layer prefs) = [] \<and>
         writes (calls (writeLayer ops layers layer prefs)) = [WritePrefs layer unique]"
proof -
  from writeLayer_written [OF assms(1,2,3)]
  have u: "unique = minimized ops layers (unat layer) prefs"
    and d: "all_defined ops layers (unat layer) prefs"
    by simp_all
  have w: "writes (calls (writeLayer ops layers layer prefs)) = [WritePrefs layer unique]"
    using d u by (simp add: writeLayer_writes [OF assms(1,2)])
  have "writeLayer ops layers layer prefs =
     \<lparr>outcome = Inr (Some e), layers_after = layers[unat layer := target], logged = [],
      calls = fst (unique_loop ops layers layer prefs []) @ [WritePrefs layer unique]\<rparr>"
    using assms(4) d unfolding u by (simp add: writeLayer_valid [OF assms(1,2)])
  with w show ?thesis
    by simp
qed

theorem writeLayer_propagates_write_error_witness:
  "writePrefs (layer_impl (\<lambda>d. True)) [(''theme'', ''dark'')] \<lparr>content = [], storage = None\<rparr> =
     (Some IoOrStorageError, \<lparr>content = [], storage = None\<rparr>) \<and>
   outcome (writeLayer (layer_impl (\<lambda>d. True))
     [layer_of [(''theme'', ''light'')],
      \<lparr>content = [], storage = None\<rparr>] 1 [(''theme'', ''dark'')]) = Inr (Some IoOrStorageError) \<and>
   writes (calls (writeLayer (layer_impl (\<lambda>d. True))
     [layer_of [(''theme'', ''light'')],
      \<lparr>content = [], storage = None\<rparr>] 1 [(''theme'', ''dark'')])) =
     [WritePrefs 1 [(''theme'', ''dark'')]]"
  using writeLayer_propagates_write_error [of 1
      "[layer_of [(''theme'', ''light'')],
        \<lparr>content = [], storage = None\<rparr>]"
      "[(''theme'', ''dark'')]" "layer_impl (\<lambda>d. True)" "[(''theme'', ''dark'')]"
      IoOrStorageError "\<lparr>content = [], storage = None\<rparr>"]
  by (simp add: scenario_broken_target vsize_def layer_impl_sel layer_writePrefs_def)

text \<open>
  C7. \<open>allLayers\<close> returns one document for each layer, the layer's \<open>allPrefs\<close>, in the
  order of the stack with index 0 first. It returns nothing else: the layers are not
  part of its result, so it leaves them as they are.
\<close>

theorem allLayers_snapshots:
  "allLayers ops layers = map (allPrefs ops) layers \<and>
   length (allLayers ops layers) = length layers"
proof -
  have "foldl (\<lambda>array layer. array @ [allPrefs ops layer]) acc layers =
        acc @ map (allPrefs ops) layers" for acc
    by (induction layers arbitrary: acc) simp_all
  then show ?thesis
    by (simp add: allLayers_def)
qed

theorem allLayers_snapshots_witness:
  "allLayers (layer_impl (\<lambda>d. True))
     [layer_of [(''theme'', ''light'')],
      \<lparr>content = [(''theme'', ''dark'')], storage = None\<rparr>] =
   [[(''theme'', ''light'')], [(''theme'', ''dark'')]]"
  using allLayers_snapshots [of "layer_impl (\<lambda>d. True)"
      "[layer_of [(''theme'', ''light'')],
        \<lparr>content = [(''theme'', ''dark'')], storage = None\<rparr>]"]
  by (simp add: layer_impl_sel layer_of_sel)

text \<open>
  C8. With the spec's layer: at a valid index, when \<open>writeLayer\<close> succeeded, calling it
  again with the same proposed object succeeds, writes the same set and leaves every
  layer exactly as the first call left it. The proposed object has no name twice.
\<close>

theorem writeLayer_idempotent:
  assumes "1 \<le> layer" and "layer < vsize layers" and "distinct (map fst prefs)"
    and "outcome (writeLayer (layer_impl schema) layers layer prefs) = Inr None"
  shows
    "outcome (writeLayer (layer_impl schema)
        (layers_after (writeLayer (layer_impl schema) layers layer prefs)) layer prefs) = Inr None \<and>
     layers_after (writeLayer (layer_impl schema)
        (layers_after (writeLayer (layer_impl schema) layers layer prefs)) layer prefs) =
       layers_after (writeLayer (layer_impl schema) layers layer prefs) \<and>
     calls (writeLayer (layer_impl schema)
        (layers_after (writeLayer (layer_impl schema) layers layer prefs)) layer prefs) =
       calls (writeLayer (layer_impl schema) layers layer prefs)"
proof -
  let ?ops = "layer_impl schema :: ('a layer, 'a, 'a object) layer_ops"
  let ?u = "minimized ?ops layers (unat layer) prefs"
  let ?t = "layers ! unat layer"
  have lt: "unat layer < length layers"
    using assms(2) by (rule below_vsize)
  have d: "all_defined ?ops layers (unat layer) prefs"
    using assms(4) by (simp add: writeLayer_valid [OF assms(1,2)] split: if_splits)
  obtain t' where w: "layer_writePrefs ?u ?t = (None, t')"
    using assms(4) d
    by (cases "layer_writePrefs ?u ?t") (simp add: writeLayer_valid [OF assms(1,2)] layer_impl_sel)
  have first: "layers_after (writeLayer ?ops layers layer prefs) = layers[unat layer := t']"
    using d w by (simp add: writeLayer_valid [OF assms(1,2)] layer_impl_sel)
  have lt': "layer < vsize (layers[unat layer := t'])"
    using assms(2) by (simp add: vsize_update)
  have lower: "take (unat layer) (layers[unat layer := t']) = take (unat layer) layers"
    by simp
  have d': "all_defined ?ops (layers[unat layer := t']) (unat layer) prefs"
    using d by (simp add: all_defined_def nearest_lower_lower_only [OF lower])
  have u': "minimized ?ops (layers[unat layer := t']) (unat layer) prefs = ?u"
    by (simp add: minimized_def is_unique_def nearest_lower_lower_only [OF lower])
  have w': "layer_writePrefs ?u t' = (None, t')"
    using distinct_minimized [OF assms(3)] w by (rule layer_writePrefs_twice)
  have second: "writeLayer ?ops (layers[unat layer := t']) layer prefs =
     \<lparr>outcome = Inr None, layers_after = layers[unat layer := t'], logged = [],
      calls = fst (unique_loop ?ops layers layer prefs []) @ [WritePrefs layer ?u]\<rparr>"
    using d' u' w' lt
    by (simp add: writeLayer_valid [OF assms(1) lt'] layer_impl_sel
        unique_loop_lower_only [OF assms(1) lt' assms(2) lower])
  have calls1: "calls (writeLayer ?ops layers layer prefs) =
      fst (unique_loop ?ops layers layer prefs []) @ [WritePrefs layer ?u]"
    using d by (simp add: writeLayer_valid [OF assms(1,2)])
  show ?thesis
    unfolding first using second calls1 by simp
qed

theorem writeLayer_idempotent_witness:
  "outcome (writeLayer (layer_impl (\<lambda>d. True))
     [layer_of [(''theme'', ''light'')], layer_of []] 1 [(''theme'', ''dark'')]) = Inr None \<and>
   layers_after (writeLayer (layer_impl (\<lambda>d. True))
     [layer_of [(''theme'', ''light'')], layer_of [(''theme'', ''dark'')]]
     1 [(''theme'', ''dark'')]) =
     [layer_of [(''theme'', ''light'')], layer_of [(''theme'', ''dark'')]]"
  using writeLayer_idempotent [of 1
      "[layer_of [(''theme'', ''light'')], layer_of []]"
      "[(''theme'', ''dark'')]" "\<lambda>d. True"]
  by (simp add: vsize_def scenario_dark_run)


text \<open>
  C10. The code does not do this for every valid index. With a base layer that defines
  theme and two empty layers above it, the proposed object theme, dark and font, mono
  for layer 2 has the name font that no lower layer defines: the scan for font leaves
  the stack, and \<open>writeLayer\<close> made no call of \<open>writePrefs\<close> at all.
\<close>

theorem writeLayer_undefined_name_no_write:
  "writes (calls (writeLayer (layer_impl (\<lambda>d. True))
     [layer_of [(''theme'', ''light'')], layer_of [], layer_of []]
     2 [(''theme'', ''dark''), (''font'', ''mono'')])) = [] \<and>
   outcome (writeLayer (layer_impl (\<lambda>d. True))
     [layer_of [(''theme'', ''light'')], layer_of [], layer_of []]
     2 [(''theme'', ''dark''), (''font'', ''mono'')]) = Inl (OutOfRange 18446744073709551615)"
  by code_simp

end
